theory Spec2Isabelle
  imports Main
begin

section \<open>Python string primitives used by filter.py\<close>

text \<open>
  The script is Python 2 (\<^verbatim>\<open>from __future__ import print_function\<close>): the output of a
  subprocess, the contents of a file and standard input are byte strings, here \<^typ>\<open>string\<close>.
\<close>

definition NL :: char where
  "NL = CHR 0x0A"

definition is_space :: "char \<Rightarrow> bool" where
  \<comment> \<open>the bytes \<^verbatim>\<open>str.strip()\<close> and \<^verbatim>\<open>str.split()\<close> treat as whitespace: space, TAB, LF, VT, FF, CR\<close>
  "is_space c = (c = CHR '' '' \<or> c = CHR 0x09 \<or> c = CHR 0x0A \<or> c = CHR 0x0B \<or> c = CHR 0x0C \<or> c = CHR 0x0D)"

definition strip :: "string \<Rightarrow> string" where
  \<comment> \<open>\<^verbatim>\<open>s.strip()\<close>\<close>
  "strip s = rev (dropWhile is_space (rev (dropWhile is_space s)))"

fun split_on :: "char \<Rightarrow> string \<Rightarrow> string list" where
  \<comment> \<open>\<^verbatim>\<open>s.split(c)\<close> for a one-character separator: never the empty list\<close>
  "split_on c [] = [[]]"
| "split_on c (x # xs) =
     (if x = c then [] # split_on c xs
      else (case split_on c xs of [] \<Rightarrow> [[x]] | y # ys \<Rightarrow> (x # y) # ys))"

definition split_once :: "char \<Rightarrow> string \<Rightarrow> string list" where
  \<comment> \<open>\<^verbatim>\<open>s.split(c, 1)\<close>: at most one split, at the first occurrence of the separator\<close>
  "split_once c s =
     (if c \<in> set s then [takeWhile (\<lambda>x. x \<noteq> c) s, tl (dropWhile (\<lambda>x. x \<noteq> c) s)] else [s])"

fun split_ws_from :: "string \<Rightarrow> string \<Rightarrow> string list" where
  "split_ws_from cur [] = (if cur = [] then [] else [cur])"
| "split_ws_from cur (x # xs) =
     (if is_space x then (if cur = [] then split_ws_from [] xs else cur # split_ws_from [] xs)
      else split_ws_from (cur @ [x]) xs)"

definition split_ws :: "string \<Rightarrow> string list" where
  \<comment> \<open>\<^verbatim>\<open>s.split()\<close>: the maximal runs of non-whitespace bytes\<close>
  "split_ws s = split_ws_from [] s"

fun join :: "string \<Rightarrow> string list \<Rightarrow> string" where
  \<comment> \<open>\<^verbatim>\<open>sep.join(xs)\<close>\<close>
  "join sep [] = []"
| "join sep [x] = x"
| "join sep (x # y # ys) = x @ sep @ join sep (y # ys)"

definition is_digit :: "char \<Rightarrow> bool" where
  "is_digit c = (c \<in> set ''0123456789'')"

definition digit_val :: "char \<Rightarrow> nat" where
  "digit_val c = of_char c - 48"

definition py_int :: "string \<Rightarrow> int option" where
  \<comment> \<open>\<^verbatim>\<open>int(s)\<close>: surrounding whitespace, one optional sign, at least one decimal digit;
      \<open>None\<close> is ValueError\<close>
  "py_int s =
     (let t = strip s;
          neg = (t \<noteq> [] \<and> hd t = CHR ''-'');
          ds = (if t \<noteq> [] \<and> (hd t = CHR ''-'' \<or> hd t = CHR ''+'') then tl t else t)
      in if ds = [] \<or> \<not> list_all is_digit ds then None
         else Some ((if neg then - 1 else 1) * int (foldl (\<lambda>a c. 10 * a + digit_val c) 0 ds)))"

fun digits_of :: "nat \<Rightarrow> string" where
  "digits_of n =
     (if n < 10 then [''0123456789'' ! n] else digits_of (n div 10) @ [''0123456789'' ! (n mod 10)])"

declare digits_of.simps [simp del]

definition py_str :: "int \<Rightarrow> string" where
  \<comment> \<open>\<^verbatim>\<open>str(n)\<close> of an integer\<close>
  "py_str n = (if n < 0 then CHR ''-'' # digits_of (nat (- n)) else digits_of (nat n))"

definition hex2 :: "nat \<Rightarrow> string" where
  "hex2 n = [''0123456789abcdef'' ! (n div 16 mod 16), ''0123456789abcdef'' ! (n mod 16)]"

definition repr_quote :: "string \<Rightarrow> char" where
  \<comment> \<open>\<^verbatim>\<open>repr\<close> of a byte string uses single quotes unless the string has a single quote and
      no double quote\<close>
  "repr_quote s = (if CHR 0x27 \<in> set s \<and> CHR 0x22 \<notin> set s then CHR 0x22 else CHR 0x27)"

definition repr_char :: "char \<Rightarrow> char \<Rightarrow> string" where
  "repr_char q c =
     (if c = q \<or> c = CHR 0x5C then [CHR 0x5C, c]
      else if c = CHR 0x09 then [CHR 0x5C, CHR ''t'']
      else if c = CHR 0x0A then [CHR 0x5C, CHR ''n'']
      else if c = CHR 0x0D then [CHR 0x5C, CHR ''r'']
      else if (of_char c :: nat) < 32 \<or> (of_char c :: nat) \<ge> 127
        then [CHR 0x5C, CHR ''x''] @ hex2 (of_char c)
      else [c])"

definition py_repr :: "string \<Rightarrow> string" where
  \<comment> \<open>\<^verbatim>\<open>repr(s)\<close> of a byte string\<close>
  "py_repr s = (let q = repr_quote s in [q] @ concat (map (repr_char q) s) @ [q])"

definition py_str_list :: "string list \<Rightarrow> string" where
  \<comment> \<open>\<^verbatim>\<open>str(xs)\<close> of a list of byte strings\<close>
  "py_str_list xs = ''['' @ join '', '' (map py_repr xs) @ '']''"

section \<open>Errors and the world the script runs in\<close>

datatype error =
    CalledProcessError "string list"  \<comment> \<open>a subprocess exited with a non-zero status\<close>
  | RuntimeError string               \<comment> \<open>raised by the script itself, with its message\<close>
  | ValueError                        \<comment> \<open>tuple unpacking or \<^verbatim>\<open>int()\<close> failed\<close>
  | IndexError                        \<comment> \<open>\<^verbatim>\<open>parents[0]\<close> on an empty list\<close>
  | KeyError string                   \<comment> \<open>\<^verbatim>\<open>os.environ[...]\<close> of an unset variable\<close>
  | OSError                           \<comment> \<open>\<^verbatim>\<open>os.rename\<close> failed\<close>

type_synonym filesystem = "string \<rightharpoonup> string"

text \<open>
  Everything outside the script is a field of the world. \<open>check_output\<close> is
  \<^verbatim>\<open>subprocess.check_output\<close>: it maps an argument vector to the standard output of the
  command, \<open>None\<close> when the command exits with a non-zero status. \<open>bash_index_info\<close>
  is \<^verbatim>\<open>subprocess.check_call(['bash', '-c', sh_cmd])\<close> of \<^verbatim>\<open>filter_index\<close>; the command
  text is fixed up to its three format arguments (the commit, the reference parent and the
  path of the new index), so the field takes these and the file system, and gives the
  exit status (\<open>True\<close> for 0) and the file system the command leaves behind.
  The two caches are the pyfscache stores under \<^verbatim>\<open>/tmp/filter-branch-cache/<name>\<close>,
  keyed by the argument of the decorated function. The parameter the source calls
  \<^verbatim>\<open>rev\<close> is written \<open>rv\<close>, since \<open>rev\<close> is list reversal.
\<close>

record world =
  cache_enabled :: bool
  check_output :: "string list \<Rightarrow> string option"
  bash_index_info :: "string \<Rightarrow> string \<Rightarrow> string \<Rightarrow> filesystem \<Rightarrow> bool \<times> filesystem"
  should_edit_cache :: "string \<rightharpoonup> bool"
  map_to_new_upstream_cache :: "string \<rightharpoonup> string option"
  files :: filesystem
  environ :: "string \<rightharpoonup> string"

definition OLD_UPSTREAM :: string where
  "OLD_UPSTREAM = ''old-clang/master''"

definition NEW_UPSTREAM :: string where
  "NEW_UPSTREAM = ''origin/master''"

section \<open>The decorators\<close>

definition time_decorator :: "('a \<Rightarrow> 'b) \<Rightarrow> 'a \<Rightarrow> 'b" where
  \<comment> \<open>reads the clock around the call and returns what the function returns\<close>
  "time_decorator fn = fn"

definition cache_decorator ::
  "bool \<Rightarrow> (string \<Rightarrow> error + 'v) \<Rightarrow> (string \<rightharpoonup> 'v) \<Rightarrow> string \<Rightarrow> (error + 'v) \<times> (string \<rightharpoonup> 'v)" where
  \<comment> \<open>with CACHE_ENABLED the function is wrapped in an FSCache: a stored result is returned
      without a call, a computed one is stored, an exception passes through and stores
      nothing; without it the function is returned as it is\<close>
  "cache_decorator enabled fn cache arg =
     (if enabled then
        (case cache arg of
           Some v \<Rightarrow> (Inr v, cache)
         | None \<Rightarrow> (case fn arg of Inl e \<Rightarrow> (Inl e, cache) | Inr v \<Rightarrow> (Inr v, cache(arg \<mapsto> v))))
      else (fn arg, cache))"

section \<open>should_edit\<close>

definition git_merge_base :: "string \<Rightarrow> string list" where
  "git_merge_base rv = [''git'', ''merge-base'', rv, OLD_UPSTREAM]"

definition should_edit_body :: "(string list \<Rightarrow> string option) \<Rightarrow> string \<Rightarrow> error + bool" where
  "should_edit_body run rv =
     (case run (git_merge_base rv) of
        None \<Rightarrow> Inl (CalledProcessError (git_merge_base rv))
      | Some out \<Rightarrow> Inr (strip out \<noteq> rv))"

definition should_edit :: "world \<Rightarrow> string \<Rightarrow> (error + bool) \<times> world" where
  "should_edit w rv =
     (case cache_decorator (cache_enabled w) (time_decorator (should_edit_body (check_output w)))
             (should_edit_cache w) rv of
        (r, c) \<Rightarrow> (r, w\<lparr>should_edit_cache := c\<rparr>))"

section \<open>map_to_new_upstream\<close>

definition git_show :: "string \<Rightarrow> string list" where
  "git_show rv = [''git'', ''show'', ''-s'', ''--format=%at %ae'', rv]"

definition git_log :: "string \<Rightarrow> string \<Rightarrow> string \<Rightarrow> string list" where
  "git_log email since until =
     [''git'', ''log'', ''--author'', email, ''--since'', since, ''--until'', until,
      ''--pretty=%H'', NEW_UPSTREAM]"

definition ambiguous_message :: "string \<Rightarrow> string" where
  "ambiguous_message rv =
     ''Revision '' @ rv @ '' has more than one corresponding rev in new upstream, '' @ NEW_UPSTREAM
       @ ''.  Maybe (author email, date) is not unique?''"

definition unmapped_message :: "string \<Rightarrow> string" where
  "unmapped_message rv =
     ''Couldn'' @ [CHR 0x27] @ ''t map_to_new_upstream revision '' @ rv @ '' from '' @ OLD_UPSTREAM
       @ '' to '' @ NEW_UPSTREAM @ ''.''"

definition show_date_email :: "(string list \<Rightarrow> string option) \<Rightarrow> string \<Rightarrow> error + string \<times> string" where
  \<comment> \<open>line 62: \<^verbatim>\<open>date, email = check_output([..., rev]).strip().split(' ', 1)\<close>\<close>
  "show_date_email run rv =
     (case run (git_show rv) of
        None \<Rightarrow> Inl (CalledProcessError (git_show rv))
      | Some out \<Rightarrow>
          (case split_once CHR '' '' (strip out) of
             [date, email] \<Rightarrow> Inr (date, email)
           | _ \<Rightarrow> Inl ValueError))"

definition new_upstream_revs :: "(string list \<Rightarrow> string option) \<Rightarrow> string \<Rightarrow> error + string list" where
  \<comment> \<open>lines 62 to 65: the candidates, one per line of the log of NEW_UPSTREAM\<close>
  "new_upstream_revs run rv =
     (case show_date_email run rv of
        Inl e \<Rightarrow> Inl e
      | Inr (date, email) \<Rightarrow>
          (case py_int date of
             None \<Rightarrow> Inl ValueError
           | Some d \<Rightarrow>
               (case run (git_log email date (py_str (d + 1))) of
                  None \<Rightarrow> Inl (CalledProcessError (git_log email date (py_str (d + 1))))
                | Some out \<Rightarrow> Inr (split_on NL (strip out)))))"

definition map_to_new_upstream_body ::
  "(string list \<Rightarrow> string option) \<Rightarrow> string \<Rightarrow> error + string option" where
  "map_to_new_upstream_body run rv =
     (case new_upstream_revs run rv of
        Inl e \<Rightarrow> Inl e
      | Inr revs \<Rightarrow>
          if length revs > 1 then Inl (RuntimeError (ambiguous_message rv))
          else if revs = [] \<or> hd revs = [] then
            (case run (git_merge_base rv) of
               None \<Rightarrow> Inl (CalledProcessError (git_merge_base rv))
             | Some out \<Rightarrow>
                 if strip out = rv then Inl (RuntimeError (unmapped_message rv))
                 else Inr None)
          else Inr (Some (hd revs)))"

definition map_to_new_upstream :: "world \<Rightarrow> string \<Rightarrow> (error + string option) \<times> world" where
  "map_to_new_upstream w rv =
     (case cache_decorator (cache_enabled w)
             (time_decorator (map_to_new_upstream_body (check_output w)))
             (map_to_new_upstream_cache w) rv of
        (r, c) \<Rightarrow> (r, w\<lparr>map_to_new_upstream_cache := c\<rparr>))"

section \<open>map_to_filtered\<close>

definition mapfile_message :: "string \<Rightarrow> string list \<Rightarrow> string" where
  "mapfile_message mapfile lines =
     ''mapfile '' @ mapfile @ '' doesn'' @ [CHR 0x27] @ ''t contain a single line: ''
       @ py_str_list lines"

definition map_to_filtered :: "world \<Rightarrow> string \<Rightarrow> error + string option" where
  \<comment> \<open>\<^verbatim>\<open>open\<close> raises IOError when the file is absent, and the function returns None\<close>
  "map_to_filtered w rv =
     (let mapfile = ''../map/'' @ rv in
      case files w mapfile of
        None \<Rightarrow> Inr None
      | Some content \<Rightarrow>
          (let lines = split_on NL (strip content) in
           if length lines \<noteq> 1 then Inl (RuntimeError (mapfile_message mapfile lines))
           else Inr (Some (hd lines))))"

section \<open>filter_index\<close>

definition git_rev_list :: "string \<Rightarrow> string list" where
  "git_rev_list rv = [''git'', ''rev-list'', ''--parents'', ''-n'', ''1'', rv]"

fun first_mapped_parent :: "world \<Rightarrow> string list \<Rightarrow> (error + string option) \<times> world" where
  \<comment> \<open>lines 117 to 121: the generator maps the parents one at a time, and the loop stops at
      the first result that is not None\<close>
  "first_mapped_parent w [] = (Inr None, w)"
| "first_mapped_parent w (p # ps) =
     (case map_to_new_upstream w p of
        (Inl e, w') \<Rightarrow> (Inl e, w')
      | (Inr None, w') \<Rightarrow> first_mapped_parent w' ps
      | (Inr (Some tp), w') \<Rightarrow> (Inr (Some tp), w'))"

definition os_rename :: "string \<Rightarrow> string \<Rightarrow> filesystem \<Rightarrow> error + filesystem" where
  \<comment> \<open>\<^verbatim>\<open>os.rename(src, dst)\<close>: one step that makes \<open>dst\<close> the file \<open>src\<close> was\<close>
  "os_rename src dst fs =
     (case fs src of
        None \<Rightarrow> Inl OSError
      | Some content \<Rightarrow> Inr ((fs(src := None))(dst \<mapsto> content)))"

definition bash_argv :: "string \<Rightarrow> string \<Rightarrow> string \<Rightarrow> string list" where
  \<comment> \<open>stands for \<^verbatim>\<open>['bash', '-c', sh_cmd]\<close>, with the format arguments of \<^verbatim>\<open>sh_cmd\<close>\<close>
  "bash_argv rv parent_rev new_index_file = [''bash'', ''-c'', rv, parent_rev, new_index_file]"

text \<open>
  The command the script hands to bash, lines 133 to 137:
  \<^verbatim>\<open>cat <(git ls-tree -r REV | sed -e $'s:\t:\tclang/:') <(git ls-tree -r PARENT | grep -v $'\tclang/') | GIT_INDEX_FILE=NEW git update-index --index-info\<close>.
  \<open>sh_cmd\<close> is what bash makes of it, from the answers of the two \<^verbatim>\<open>git ls-tree\<close> and of
  \<^verbatim>\<open>git update-index\<close>. A \<^verbatim>\<open>git ls-tree\<close> that fails prints nothing on standard output;
  it runs inside a process substitution, whose exit status bash drops. No \<^verbatim>\<open>pipefail\<close> is
  set, so the status of the command is the status of \<^verbatim>\<open>git update-index\<close>, the last
  command of the pipeline. \<open>update_index\<close> maps the entries it reads to its exit status and
  the index it writes, if any, at the path GIT_INDEX_FILE names.
\<close>

definition TAB :: char where
  "TAB = CHR 0x09"

definition git_ls_tree :: "string \<Rightarrow> string list" where
  "git_ls_tree rv = [''git'', ''ls-tree'', ''-r'', rv]"

fun sed_clang :: "bool \<Rightarrow> string \<Rightarrow> string" where
  \<comment> \<open>\<^verbatim>\<open>sed -e 's:TAB:TAB clang/:'\<close>: after the first TAB of each line comes \<^verbatim>\<open>clang/\<close>; the
      flag says that the line at hand has had its replacement\<close>
  "sed_clang replaced [] = []"
| "sed_clang replaced (c # cs) =
     (if c = NL then c # sed_clang False cs
      else if c = TAB \<and> \<not> replaced then c # ''clang/'' @ sed_clang True cs
      else c # sed_clang replaced cs)"

fun starts_with :: "string \<Rightarrow> string \<Rightarrow> bool" where
  "starts_with [] s = True"
| "starts_with (p # ps) [] = False"
| "starts_with (p # ps) (c # cs) = (p = c \<and> starts_with ps cs)"

fun contains :: "string \<Rightarrow> string \<Rightarrow> bool" where
  "contains p [] = (p = [])"
| "contains p (c # cs) = (starts_with p (c # cs) \<or> contains p cs)"

definition text_lines :: "string \<Rightarrow> string list" where
  \<comment> \<open>the lines of a text, each without its newline\<close>
  "text_lines s =
     (if s = [] then []
      else if last (split_on NL s) = [] then butlast (split_on NL s) else split_on NL s)"

definition grep_v_clang :: "string \<Rightarrow> string" where
  \<comment> \<open>\<^verbatim>\<open>grep -v 'TAB clang/'\<close>: the lines that do not contain a TAB followed by \<^verbatim>\<open>clang/\<close>\<close>
  "grep_v_clang s =
     concat (map (\<lambda>l. l @ [NL]) (filter (\<lambda>l. \<not> contains (TAB # ''clang/'') l) (text_lines s)))"

definition sh_cmd ::
  "(string list \<Rightarrow> string option) \<Rightarrow> (string \<Rightarrow> bool \<times> string option) \<Rightarrow>
     string \<Rightarrow> string \<Rightarrow> string \<Rightarrow> filesystem \<Rightarrow> bool \<times> filesystem" where
  "sh_cmd run update_index rv parent_rev new_index_file fs =
     (let own = (case run (git_ls_tree rv) of None \<Rightarrow> [] | Some out \<Rightarrow> sed_clang False out);
          inherited = (case run (git_ls_tree parent_rev) of None \<Rightarrow> [] | Some out \<Rightarrow> grep_v_clang out)
      in case update_index (own @ inherited) of
           (status, None) \<Rightarrow> (status, fs)
         | (status, Some index) \<Rightarrow> (status, fs(new_index_file \<mapsto> index)))"

definition publish_index :: "world \<Rightarrow> string \<Rightarrow> string \<Rightarrow> (error + unit) \<times> world" where
  \<comment> \<open>lines 129 to 139\<close>
  "publish_index w rv parent_rev =
     (case environ w ''GIT_INDEX_FILE'' of
        None \<Rightarrow> (Inl (KeyError ''GIT_INDEX_FILE''), w)
      | Some index_file \<Rightarrow>
          (let new_index_file = index_file @ ''.new'' in
           case bash_index_info w rv parent_rev new_index_file (files w) of
             (False, fs) \<Rightarrow>
               (Inl (CalledProcessError (bash_argv rv parent_rev new_index_file)), w\<lparr>files := fs\<rparr>)
           | (True, fs) \<Rightarrow>
               (case os_rename new_index_file index_file fs of
                  Inl e \<Rightarrow> (Inl e, w\<lparr>files := fs\<rparr>)
                | Inr fs' \<Rightarrow> (Inr (), w\<lparr>files := fs'\<rparr>))))"

definition filter_index :: "world \<Rightarrow> string \<Rightarrow> (error + unit) \<times> world" where
  "filter_index w rv =
     (case should_edit w rv of
        (Inl e, w1) \<Rightarrow> (Inl e, w1)
      | (Inr False, w1) \<Rightarrow> (Inr (), w1)
      | (Inr True, w1) \<Rightarrow>
          (case check_output w1 (git_rev_list rv) of
             None \<Rightarrow> (Inl (CalledProcessError (git_rev_list rv)), w1)
           | Some out \<Rightarrow>
               (case tl (split_ws (strip out)) of
                  [] \<Rightarrow> (Inl IndexError, w1)
                | p0 # ps \<Rightarrow>
                    (case first_mapped_parent w1 (p0 # ps) of
                       (Inl e, w2) \<Rightarrow> (Inl e, w2)
                     | (Inr tp, w2) \<Rightarrow>
                         (let parent_rev = (case tp of None \<Rightarrow> p0 | Some t \<Rightarrow> t) in
                          case map_to_filtered w2 parent_rev of
                            Inl e \<Rightarrow> (Inl e, w2)
                          | Inr filtered_parent_rev \<Rightarrow>
                              publish_index w2 rv
                                (case filtered_parent_rev of
                                   None \<Rightarrow> parent_rev
                                 | Some f \<Rightarrow> if f \<noteq> [] then f else parent_rev))))))"

section \<open>filter_parent\<close>

fun new_parents :: "world \<Rightarrow> string list \<Rightarrow> (error + string list) \<times> world" where
  \<comment> \<open>lines 148 to 158: the loop over the tokens of standard input\<close>
  "new_parents w [] = (Inr [], w)"
| "new_parents w (p # ps) =
     (if p = ''-p'' then
        (case new_parents w ps of
           (Inl e, w') \<Rightarrow> (Inl e, w')
         | (Inr qs, w') \<Rightarrow> (Inr (p # qs), w'))
      else
        (case map_to_new_upstream w p of
           (Inl e, w1) \<Rightarrow> (Inl e, w1)
         | (Inr tp, w1) \<Rightarrow>
             (case new_parents w1 ps of
                (Inl e, w') \<Rightarrow> (Inl e, w')
              | (Inr qs, w') \<Rightarrow>
                  (Inr ((case tp of None \<Rightarrow> p | Some t \<Rightarrow> if t \<noteq> [] then t else p) # qs), w'))))"

definition filter_parent :: "world \<Rightarrow> string \<Rightarrow> string \<Rightarrow> (error + string) \<times> world" where
  \<comment> \<open>takes what standard input holds, returns what is printed to standard output\<close>
  "filter_parent w stdin rv =
     (case should_edit w rv of
        (Inl e, w1) \<Rightarrow> (Inl e, w1)
      | (Inr False, w1) \<Rightarrow> (Inr (stdin @ [NL]), w1)
      | (Inr True, w1) \<Rightarrow>
          (case new_parents w1 (split_ws (strip stdin)) of
             (Inl e, w2) \<Rightarrow> (Inl e, w2)
           | (Inr qs, w2) \<Rightarrow> (Inr (join '' '' qs @ [NL]), w2)))"

section \<open>Notions the properties are stated with\<close>

definition cache_ok :: "world \<Rightarrow> bool" where
  \<comment> \<open>every stored result is what the decorated function computes in this repository: the
      stores are filled by the script alone, and the two upstream refs are fixed for a run\<close>
  "cache_ok w =
     (cache_enabled w \<longrightarrow>
        (\<forall>rv b. should_edit_cache w rv = Some b \<longrightarrow> should_edit_body (check_output w) rv = Inr b) \<and>
        (\<forall>rv v. map_to_new_upstream_cache w rv = Some v \<longrightarrow>
           map_to_new_upstream_body (check_output w) rv = Inr v))"

definition in_old_upstream :: "(string list \<Rightarrow> string option) \<Rightarrow> string \<Rightarrow> bool" where
  \<comment> \<open>the merge-base test: \<^verbatim>\<open>git merge-base rev OLD_UPSTREAM\<close> answers \<open>rev\<close>\<close>
  "in_old_upstream run rv =
     (case run (git_merge_base rv) of None \<Rightarrow> False | Some out \<Rightarrow> strip out = rv)"

definition not_in_old_upstream :: "(string list \<Rightarrow> string option) \<Rightarrow> string \<Rightarrow> bool" where
  \<comment> \<open>the merge-base test answers another commit\<close>
  "not_in_old_upstream run rv =
     (case run (git_merge_base rv) of None \<Rightarrow> False | Some out \<Rightarrow> strip out \<noteq> rv)"

definition is_hash :: "string \<Rightarrow> bool" where
  \<comment> \<open>a commit name as git prints it: not empty, no whitespace\<close>
  "is_hash h = (h \<noteq> [] \<and> list_all (\<lambda>c. \<not> is_space c) h)"

definition log_output :: "string list \<Rightarrow> string" where
  \<comment> \<open>what \<^verbatim>\<open>git log --pretty=%H\<close> prints for a list of commits: one name per line\<close>
  "log_output hs = concat (map (\<lambda>h. h @ [NL]) hs)"

definition log_lists :: "(string list \<Rightarrow> string option) \<Rightarrow> string \<Rightarrow> string list \<Rightarrow> bool" where
  \<comment> \<open>the log query the script makes for \<open>rv\<close> (author \<open>rv\<close>'s email, since \<open>rv\<close>'s timestamp,
      until one second later, on NEW_UPSTREAM) lists the commits \<open>hs\<close>\<close>
  "log_lists run rv hs =
     (case show_date_email run rv of
        Inl e \<Rightarrow> False
      | Inr (date, email) \<Rightarrow>
          (case py_int date of
             None \<Rightarrow> False
           | Some d \<Rightarrow>
               run (git_log email date (py_str (d + 1))) = Some (log_output hs) \<and>
               list_all is_hash hs))"

definition commit_email :: "(string list \<Rightarrow> string option) \<Rightarrow> string \<Rightarrow> string option" where
  \<comment> \<open>the author email \<^verbatim>\<open>git show -s --format='%at %ae'\<close> reports\<close>
  "commit_email run rv = (case show_date_email run rv of Inl e \<Rightarrow> None | Inr (date, email) \<Rightarrow> Some email)"

definition commit_time :: "(string list \<Rightarrow> string option) \<Rightarrow> string \<Rightarrow> int option" where
  \<comment> \<open>the timestamp \<^verbatim>\<open>git show -s --format='%at %ae'\<close> reports\<close>
  "commit_time run rv = (case show_date_email run rv of Inl e \<Rightarrow> None | Inr (date, email) \<Rightarrow> py_int date)"

fun flag_tagged :: "string list \<Rightarrow> string list" where
  \<comment> \<open>the tokens of \<^verbatim>\<open>-p <parent> -p <parent> ...\<close>\<close>
  "flag_tagged [] = []"
| "flag_tagged (p # ps) = ''-p'' # p # flag_tagged ps"

definition mapped_or_same :: "(string list \<Rightarrow> string option) \<Rightarrow> string \<Rightarrow> string" where
  \<comment> \<open>the parent after rewriting, as the spec words it: its correspondence when one exists,
      the parent itself otherwise\<close>
  "mapped_or_same run p =
     (case map_to_new_upstream_body run p of Inr (Some t) \<Rightarrow> t | _ \<Rightarrow> p)"




section \<open>A small repository\<close>

text \<open>
  \<open>A\<close> is the tip of the old upstream and \<open>B\<close> its counterpart in the new one. \<open>C\<close> is a
  foreign child of \<open>A\<close>; \<open>D\<close> is foreign with no counterpart; \<open>M\<close> merges \<open>D\<close> and \<open>A\<close>;
  \<open>X\<close> is on the old upstream and has no counterpart; \<open>Y\<close> has two candidates, \<open>P\<close> and
  \<open>Q\<close>; the history of \<open>R\<close> lists no parent. \<open>B\<close> has been rewritten to \<open>F\<close>.
\<close>

definition example_git :: "string list \<Rightarrow> string option" where
  "example_git = map_of
     [(git_merge_base ''A'', ''A'' @ [NL]),
      (git_merge_base ''C'', ''A'' @ [NL]),
      (git_merge_base ''D'', ''Z'' @ [NL]),
      (git_merge_base ''M'', ''A'' @ [NL]),
      (git_merge_base ''X'', ''X'' @ [NL]),
      (git_merge_base ''Y'', ''Y'' @ [NL]),
      (git_merge_base ''R'', ''Z'' @ [NL]),
      (git_show ''A'', ''100 al@x'' @ [NL]),
      (git_show ''B'', ''101 al@x'' @ [NL]),
      (git_show ''C'', ''500 cy@x'' @ [NL]),
      (git_show ''D'', ''200 di@x'' @ [NL]),
      (git_show ''X'', ''300 xi@x'' @ [NL]),
      (git_show ''Y'', ''400 yo@x'' @ [NL]),
      (git_log ''al@x'' ''100'' ''101'', log_output [''B'']),
      (git_log ''cy@x'' ''500'' ''501'', log_output []),
      (git_log ''di@x'' ''200'' ''201'', log_output []),
      (git_log ''xi@x'' ''300'' ''301'', log_output []),
      (git_log ''yo@x'' ''400'' ''401'', log_output [''P'', ''Q'']),
      (git_rev_list ''C'', ''C A'' @ [NL]),
      (git_rev_list ''M'', ''M D A'' @ [NL]),
      (git_rev_list ''R'', ''R'' @ [NL])]"

definition example_bash :: "string \<Rightarrow> string \<Rightarrow> string \<Rightarrow> filesystem \<Rightarrow> bool \<times> filesystem" where
  \<comment> \<open>succeeds, and leaves at the new path an index that names the two trees it was built from\<close>
  "example_bash rv parent_rev new_index_file fs = (True, fs(new_index_file \<mapsto> rv @ ''+'' @ parent_rev))"

definition example_world :: world where
  "example_world =
     \<lparr>cache_enabled = True,
      check_output = example_git,
      bash_index_info = example_bash,
      should_edit_cache = Map.empty,
      map_to_new_upstream_cache = Map.empty,
      files = [''../map/B'' \<mapsto> ''F'' @ [NL], ''../map/E'' \<mapsto> [], ''../map/T'' \<mapsto> ''G'' @ [NL] @ ''H'' @ [NL], ''idx'' \<mapsto> ''old''],
      environ = [''GIT_INDEX_FILE'' \<mapsto> ''idx'']\<rparr>"

definition three_candidates_git :: "string list \<Rightarrow> string option" where
  \<comment> \<open>the same repository with a third candidate for \<open>Y\<close>\<close>
  "three_candidates_git = example_git(git_log ''yo@x'' ''400'' ''401'' \<mapsto> log_output [''P'', ''Q'', ''S''])"

text \<open>
  A second repository, for the identity heuristic. \<open>V\<close> is on the old upstream, written by
  \<^verbatim>\<open>al@x.com\<close> at time 100. \<open>W\<close> is on the new upstream, written by \<^verbatim>\<open>val@x.com\<close> at time
  50 and committed at time 100. \<^verbatim>\<open>git log --author\<close> takes a pattern, and \<^verbatim>\<open>al@x.com\<close> occurs
  in \<^verbatim>\<open>val@x.com\<close>; \<^verbatim>\<open>--since\<close> and \<^verbatim>\<open>--until\<close> compare the committer date, while \<^verbatim>\<open>%at\<close>
  prints the author date. So the log query the script makes for \<open>V\<close> lists \<open>W\<close>.
\<close>

definition author_pattern_git :: "string list \<Rightarrow> string option" where
  "author_pattern_git = map_of
     [(git_merge_base ''V'', ''V'' @ [NL]),
      (git_show ''V'', ''100 al@x.com'' @ [NL]),
      (git_show ''W'', ''50 val@x.com'' @ [NL]),
      (git_log ''al@x.com'' ''100'' ''101'', log_output [''W''])]"

definition author_pattern_world :: world where
  "author_pattern_world = example_world\<lparr>check_output := author_pattern_git\<rparr>"

text \<open>
  The small repository again, with the shell command as bash runs it. The tree of \<open>C\<close> has
  one file, \<open>f\<close>. The RewriteMap sends \<open>B\<close> to \<open>F\<close>. In \<open>missing_parent_world\<close> the
  repository has no object \<open>F\<close>, so \<^verbatim>\<open>git ls-tree -r F\<close> fails; in \<open>whole_parent_world\<close> the
  tree of \<open>F\<close> has the files \<open>g\<close> and \<open>clang/h\<close>. \<^verbatim>\<open>git update-index\<close> succeeds, and the
  index it writes is shown as the entries it was given.
\<close>

definition example_update_index :: "string \<Rightarrow> bool \<times> string option" where
  "example_update_index entries = (True, Some entries)"

definition missing_parent_git :: "string list \<Rightarrow> string option" where
  "missing_parent_git = example_git(git_ls_tree ''C'' \<mapsto> ''m b 1'' @ [TAB] @ ''f'' @ [NL])"

definition missing_parent_world :: world where
  "missing_parent_world =
     example_world\<lparr>check_output := missing_parent_git,
                   bash_index_info := sh_cmd missing_parent_git example_update_index\<rparr>"

definition whole_parent_git :: "string list \<Rightarrow> string option" where
  "whole_parent_git =
     missing_parent_git(git_ls_tree ''F'' \<mapsto>
       ''m b 2'' @ [TAB] @ ''g'' @ [NL] @ ''m b 3'' @ [TAB] @ ''clang/h'' @ [NL])"

definition whole_parent_world :: world where
  "whole_parent_world =
     example_world\<lparr>check_output := whole_parent_git,
                   bash_index_info := sh_cmd whole_parent_git example_update_index\<rparr>"

section \<open>Facts about the string primitives\<close>

lemma is_space_NL: "is_space NL"
  by (simp add: is_space_def NL_def)

lemma split_on_not_Nil: "split_on c s \<noteq> []"
  by (induction s) (auto split: list.splits)

lemma split_on_no_sep: "c \<notin> set s \<Longrightarrow> split_on c s = [s]"
  by (induction s) auto

lemma length_split_on_Cons:
  "length (split_on c (x # xs)) = (if x = c then Suc (length (split_on c xs)) else length (split_on c xs))"
  by (cases "split_on c xs") (auto simp: split_on_not_Nil)

lemma length_split_on_one: "length (split_on c s) = 1 \<longleftrightarrow> c \<notin> set s"
proof (induction s)
  case Nil
  show ?case by simp
next
  case (Cons x xs)
  have "0 < length (split_on c xs)"
    using split_on_not_Nil [of c xs] by simp
  with Cons show ?case
    by (auto simp: length_split_on_Cons simp del: split_on.simps)
qed

lemma split_on_append_sep: "c \<notin> set x \<Longrightarrow> split_on c (x @ c # r) = x # split_on c r"
  by (induction x) auto

lemma split_on_join: "hs \<noteq> [] \<Longrightarrow> \<forall>h\<in>set hs. c \<notin> set h \<Longrightarrow> split_on c (join [c] hs) = hs"
proof (induction "[c]" hs rule: join.induct)
  case 1
  then show ?case by simp
next
  case (2 x)
  then show ?case by (simp add: split_on_no_sep)
next
  case (3 x y ys)
  then show ?case by (simp add: split_on_append_sep)
qed

lemma strip_Nil: "strip [] = []"
  by (simp add: strip_def)

lemma strip_append_NL:
  assumes "s \<noteq> []" "\<not> is_space (hd s)" "\<not> is_space (last s)"
  shows "strip (s @ [NL]) = s"
proof -
  have "dropWhile is_space (s @ [NL]) = s @ [NL]"
    using assms by (cases s) auto
  moreover have "dropWhile is_space (rev s) = rev s"
    using assms by (cases "rev s") (auto simp: hd_rev)
  ultimately show ?thesis by (simp add: strip_def is_space_NL)
qed

lemma log_output_join: "hs \<noteq> [] \<Longrightarrow> log_output hs = join [NL] hs @ [NL]"
  by (induction "[NL]" hs rule: join.induct) (simp_all add: log_output_def)

lemma is_hash_ends: "is_hash h \<Longrightarrow> h \<noteq> [] \<and> \<not> is_space (hd h) \<and> \<not> is_space (last h) \<and> NL \<notin> set h"
  using is_space_NL by (cases h) (auto simp: is_hash_def list_all_iff)

lemma join_ends:
  "hs \<noteq> [] \<Longrightarrow> \<forall>h\<in>set hs. h \<noteq> [] \<Longrightarrow>
     join sep hs \<noteq> [] \<and> hd (join sep hs) = hd (hd hs) \<and> last (join sep hs) = last (last hs)"
  by (induction sep hs rule: join.induct) auto

lemma split_strip_log_output:
  assumes "list_all is_hash hs"
  shows "split_on NL (strip (log_output hs)) = (if hs = [] then [[]] else hs)"
proof (cases "hs = []")
  case True
  then show ?thesis by (simp add: log_output_def strip_Nil)
next
  case False
  have hs: "\<forall>h\<in>set hs. h \<noteq> [] \<and> \<not> is_space (hd h) \<and> \<not> is_space (last h) \<and> NL \<notin> set h"
    using assms is_hash_ends by (auto simp: list_all_iff)
  then have ne: "\<forall>h\<in>set hs. h \<noteq> []" by blast
  have "hd hs \<in> set hs" "last hs \<in> set hs" using False by auto
  with hs join_ends [OF False ne, of "[NL]"]
  have "strip (join [NL] hs @ [NL]) = join [NL] hs"
    by (intro strip_append_NL) auto
  moreover have "split_on NL (join [NL] hs) = hs"
    using False hs by (intro split_on_join) auto
  ultimately show ?thesis
    using False by (simp add: log_output_join)
qed

lemma split_ws_from_NL: "split_ws_from cur (s @ [NL]) = split_ws_from cur s"
  by (induction s arbitrary: cur) (auto simp: is_space_NL)

lemma split_ws_NL: "split_ws (s @ [NL]) = split_ws s"
  by (simp add: split_ws_def split_ws_from_NL)

section \<open>Facts about the caches, the mapper and the loops\<close>

subsection \<open>The caches\<close>

lemma should_edit_result:
  "cache_ok w \<Longrightarrow> fst (should_edit w rv) = should_edit_body (check_output w) rv"
  by (auto simp: should_edit_def cache_decorator_def cache_ok_def time_decorator_def
      split: option.splits sum.splits)

lemma should_edit_frame:
  "check_output (snd (should_edit w rv)) = check_output w \<and>
   cache_enabled (snd (should_edit w rv)) = cache_enabled w \<and>
   bash_index_info (snd (should_edit w rv)) = bash_index_info w \<and>
   map_to_new_upstream_cache (snd (should_edit w rv)) = map_to_new_upstream_cache w \<and>
   files (snd (should_edit w rv)) = files w \<and>
   environ (snd (should_edit w rv)) = environ w"
  by (simp add: should_edit_def cache_decorator_def split: option.splits sum.splits)

lemma should_edit_cache_ok: "cache_ok w \<Longrightarrow> cache_ok (snd (should_edit w rv))"
  by (auto simp: should_edit_def cache_decorator_def cache_ok_def time_decorator_def
      split: option.splits sum.splits)

lemma should_edit_again:
  "fst (should_edit w rv) = Inr b \<Longrightarrow>
     should_edit (snd (should_edit w rv)) rv = (Inr b, snd (should_edit w rv))"
  by (cases "cache_enabled w") (auto simp: should_edit_def cache_decorator_def time_decorator_def
      split: option.splits sum.splits)

lemma map_to_new_upstream_result:
  "cache_ok w \<Longrightarrow> fst (map_to_new_upstream w rv) = map_to_new_upstream_body (check_output w) rv"
  by (auto simp: map_to_new_upstream_def cache_decorator_def cache_ok_def time_decorator_def
      split: option.splits sum.splits)

lemma map_to_new_upstream_frame:
  "check_output (snd (map_to_new_upstream w rv)) = check_output w \<and>
   cache_enabled (snd (map_to_new_upstream w rv)) = cache_enabled w \<and>
   bash_index_info (snd (map_to_new_upstream w rv)) = bash_index_info w \<and>
   should_edit_cache (snd (map_to_new_upstream w rv)) = should_edit_cache w \<and>
   files (snd (map_to_new_upstream w rv)) = files w \<and>
   environ (snd (map_to_new_upstream w rv)) = environ w"
  by (simp add: map_to_new_upstream_def cache_decorator_def split: option.splits sum.splits)

lemma map_to_new_upstream_cache_ok: "cache_ok w \<Longrightarrow> cache_ok (snd (map_to_new_upstream w rv))"
  by (auto simp: map_to_new_upstream_def cache_decorator_def cache_ok_def time_decorator_def
      split: option.splits sum.splits)

subsection \<open>The body of map_to_new_upstream\<close>

lemma new_upstream_revs_log_lists:
  "log_lists run rv hs \<Longrightarrow> new_upstream_revs run rv = Inr (if hs = [] then [[]] else hs)"
  by (auto simp: log_lists_def new_upstream_revs_def split_strip_log_output
      split: sum.splits option.splits prod.splits)

lemma body_log_lists:
  assumes "log_lists run rv hs"
  shows "map_to_new_upstream_body run rv =
     (if length hs > 1 then Inl (RuntimeError (ambiguous_message rv))
      else if hs = [] then
        (case run (git_merge_base rv) of
           None \<Rightarrow> Inl (CalledProcessError (git_merge_base rv))
         | Some out \<Rightarrow> if strip out = rv then Inl (RuntimeError (unmapped_message rv)) else Inr None)
      else Inr (Some (hd hs)))"
proof -
  have "list_all is_hash hs"
    using assms by (auto simp: log_lists_def split: sum.splits option.splits prod.splits)
  then have "hs \<noteq> [] \<Longrightarrow> hd hs \<noteq> []"
    by (cases hs) (auto simp: is_hash_def)
  then show ?thesis
    by (auto simp: map_to_new_upstream_body_def new_upstream_revs_log_lists [OF assms])
qed

lemma body_Some_not_empty: "map_to_new_upstream_body run rv = Inr (Some t) \<Longrightarrow> t \<noteq> []"
  by (auto simp: map_to_new_upstream_body_def split: sum.splits option.splits if_splits)

lemma body_Some_single:
  "map_to_new_upstream_body run rv = Inr (Some t) \<Longrightarrow> new_upstream_revs run rv = Inr [t]"
  by (cases "new_upstream_revs run rv"; cases "projr (new_upstream_revs run rv)")
     (auto simp: map_to_new_upstream_body_def split: sum.splits option.splits if_splits)

lemma body_in_old_upstream:
  "in_old_upstream run rv \<Longrightarrow> map_to_new_upstream_body run rv \<noteq> Inr None"
  by (auto simp: map_to_new_upstream_body_def in_old_upstream_def
      split: sum.splits option.splits if_splits)

subsection \<open>The loops\<close>

lemma first_mapped_parent_frame:
  "check_output (snd (first_mapped_parent w ps)) = check_output w \<and>
   cache_enabled (snd (first_mapped_parent w ps)) = cache_enabled w \<and>
   bash_index_info (snd (first_mapped_parent w ps)) = bash_index_info w \<and>
   should_edit_cache (snd (first_mapped_parent w ps)) = should_edit_cache w \<and>
   files (snd (first_mapped_parent w ps)) = files w \<and>
   environ (snd (first_mapped_parent w ps)) = environ w"
proof (induction ps arbitrary: w)
  case Nil
  show ?case by simp
next
  case (Cons p ps)
  obtain r w' where m: "map_to_new_upstream w p = (r, w')"
    by (cases "map_to_new_upstream w p")
  with map_to_new_upstream_frame [of w p] Cons [of w'] show ?case
    by (auto split: sum.splits option.splits)
qed


lemma new_parents_frame:
  "files (snd (new_parents w ts)) = files w \<and> environ (snd (new_parents w ts)) = environ w \<and>
   check_output (snd (new_parents w ts)) = check_output w \<and>
   should_edit_cache (snd (new_parents w ts)) = should_edit_cache w"
proof (induction ts arbitrary: w)
  case Nil
  show ?case by simp
next
  case (Cons p ts)
  obtain r w1 where m: "map_to_new_upstream w p = (r, w1)"
    by (cases "map_to_new_upstream w p")
  obtain q w2 where n: "new_parents w ts = (q, w2)"
    by (cases "new_parents w ts")
  obtain q1 w3 where n1: "new_parents w1 ts = (q1, w3)"
    by (cases "new_parents w1 ts")
  from m n n1 map_to_new_upstream_frame [of w p] Cons [of w] Cons [of w1] show ?case
    by (auto split: sum.splits option.splits)
qed

lemma new_parents_result:
  "cache_ok w \<Longrightarrow>
   list_all (\<lambda>p. p = ''-p'' \<or> \<not> isl (map_to_new_upstream_body (check_output w) p)) ts \<Longrightarrow>
     fst (new_parents w ts) =
       Inr (map (\<lambda>p. if p = ''-p'' then p else mapped_or_same (check_output w) p) ts)"
proof (induction ts arbitrary: w)
  case Nil
  show ?case by simp
next
  case (Cons p ts)
  show ?case
  proof (cases "p = ''-p''")
    case True
    have "fst (new_parents w ts) =
        Inr (map (\<lambda>p. if p = ''-p'' then p else mapped_or_same (check_output w) p) ts)"
      using Cons.prems by (intro Cons.IH) simp_all
    with True show ?thesis
      by (cases "new_parents w ts") (simp split: sum.splits)
  next
    case False
    obtain r w1 where m: "map_to_new_upstream w p = (r, w1)"
      by (cases "map_to_new_upstream w p")
    have r: "r = map_to_new_upstream_body (check_output w) p"
      using map_to_new_upstream_result [OF Cons.prems(1), of p] m by simp
    have w1: "cache_ok w1" "check_output w1 = check_output w"
      using map_to_new_upstream_cache_ok [OF Cons.prems(1), of p] map_to_new_upstream_frame [of w p] m
      by simp_all
    have ih: "fst (new_parents w1 ts) =
        Inr (map (\<lambda>p. if p = ''-p'' then p else mapped_or_same (check_output w1) p) ts)"
      using Cons.prems(2) w1 by (intro Cons.IH) simp_all
    from Cons.prems(2) False obtain v where v: "map_to_new_upstream_body (check_output w) p = Inr v"
      by (cases "map_to_new_upstream_body (check_output w) p") auto
    have "(case v of None \<Rightarrow> p | Some t \<Rightarrow> if t \<noteq> [] then t else p) = mapped_or_same (check_output w) p"
      using v body_Some_not_empty [of "check_output w" p]
      by (auto simp: mapped_or_same_def split: option.splits)
    with m r v w1 ih False show ?thesis
      by (cases "new_parents w1 ts") (simp split: sum.splits)
  qed
qed

lemma map_flag_tagged:
  "\<forall>p\<in>set ps. p \<noteq> ''-p'' \<Longrightarrow>
     map (\<lambda>p. if p = ''-p'' then p else f p) (flag_tagged ps) = flag_tagged (map f ps)"
  by (induction ps) auto

subsection \<open>The two filters unfolded\<close>

lemma should_edit_body_iff:
  "(should_edit_body run rv = Inr True \<longleftrightarrow> not_in_old_upstream run rv) \<and>
   (should_edit_body run rv = Inr False \<longleftrightarrow> in_old_upstream run rv)"
  by (auto simp: should_edit_body_def not_in_old_upstream_def in_old_upstream_def
      split: option.splits)

lemma filter_index_not_edited:
  "fst (should_edit w rv) = Inr False \<Longrightarrow> filter_index w rv = (Inr (), snd (should_edit w rv))"
  by (cases "should_edit w rv") (simp add: filter_index_def)

lemma filter_parent_not_edited:
  "fst (should_edit w rv) = Inr False \<Longrightarrow>
     filter_parent w stdin rv = (Inr (stdin @ [NL]), snd (should_edit w rv))"
  by (cases "should_edit w rv") (simp add: filter_parent_def)

lemma filter_index_edited:
  assumes "fst (should_edit w rv) = Inr True"
  shows "filter_index w rv =
     (case check_output w (git_rev_list rv) of
        None \<Rightarrow> (Inl (CalledProcessError (git_rev_list rv)), snd (should_edit w rv))
      | Some out \<Rightarrow>
          (case tl (split_ws (strip out)) of
             [] \<Rightarrow> (Inl IndexError, snd (should_edit w rv))
           | p0 # ps \<Rightarrow>
               (case first_mapped_parent (snd (should_edit w rv)) (p0 # ps) of
                  (Inl e, w2) \<Rightarrow> (Inl e, w2)
                | (Inr tp, w2) \<Rightarrow>
                    (case map_to_filtered w2 (case tp of None \<Rightarrow> p0 | Some t \<Rightarrow> t) of
                       Inl e \<Rightarrow> (Inl e, w2)
                     | Inr f \<Rightarrow>
                         publish_index w2 rv
                           (case f of
                              None \<Rightarrow> (case tp of None \<Rightarrow> p0 | Some t \<Rightarrow> t)
                            | Some f' \<Rightarrow>
                                if f' \<noteq> [] then f' else (case tp of None \<Rightarrow> p0 | Some t \<Rightarrow> t))))))"
proof -
  obtain w1 where s: "should_edit w rv = (Inr True, w1)"
    using assms by (cases "should_edit w rv") simp
  have "check_output w1 = check_output w"
    using should_edit_frame [of w rv] s by simp
  with s show ?thesis
    by (simp add: filter_index_def Let_def
        split: option.splits list.splits prod.splits sum.splits)
qed

lemma filter_parent_edited:
  assumes "fst (should_edit w rv) = Inr True"
  shows "filter_parent w stdin rv =
     (case new_parents (snd (should_edit w rv)) (split_ws (strip stdin)) of
        (Inl e, w2) \<Rightarrow> (Inl e, w2)
      | (Inr qs, w2) \<Rightarrow> (Inr (join '' '' qs @ [NL]), w2))"
  using assms by (cases "should_edit w rv") (simp add: filter_parent_def)


lemma map_to_filtered_absent:
  "files w (''../map/'' @ rv) = None \<Longrightarrow> map_to_filtered w rv = Inr None"
  by (simp add: map_to_filtered_def)

lemma map_to_filtered_present:
  "files w (''../map/'' @ rv) = Some content \<Longrightarrow>
     map_to_filtered w rv =
       (if NL \<in> set (strip content)
        then Inl (RuntimeError (mapfile_message (''../map/'' @ rv) (split_on NL (strip content))))
        else Inr (Some (strip content)))"
  using length_split_on_one [of NL "strip content"] split_on_no_sep [of NL "strip content"]
  by (auto simp: map_to_filtered_def Let_def)

lemma map_to_filtered_entry:
  assumes "is_hash h" and "files w (''../map/'' @ rv) = Some (h @ [NL])"
  shows "map_to_filtered w rv = Inr (Some h)"
proof -
  have "strip (h @ [NL]) = h"
    using is_hash_ends [OF assms(1)] by (simp add: strip_append_NL)
  then show ?thesis
    using map_to_filtered_present [OF assms(2)] is_hash_ends [OF assms(1)] by simp
qed

lemma publish_index_files:
  assumes "environ w ''GIT_INDEX_FILE'' = Some index_file"
    and "\<forall>r p fs. snd (bash_index_info w r p (index_file @ ''.new'') fs) index_file = fs index_file"
  shows "(isl (fst (publish_index w rv p)) \<longrightarrow>
            files (snd (publish_index w rv p)) index_file = files w index_file) \<and>
         (fst (publish_index w rv p) = Inr () \<longrightarrow>
            (\<exists>fs c. bash_index_info w rv p (index_file @ ''.new'') (files w) = (True, fs) \<and>
               fs (index_file @ ''.new'') = Some c \<and>
               files (snd (publish_index w rv p)) = (fs(index_file @ ''.new'' := None))(index_file \<mapsto> c)))"
proof -
  obtain ok fs where b: "bash_index_info w rv p (index_file @ ''.new'') (files w) = (ok, fs)"
    by (cases "bash_index_info w rv p (index_file @ ''.new'') (files w)")
  have "fs index_file = files w index_file"
    using assms(2) b by (metis snd_conv)
  with assms(1) b show ?thesis
    by (cases ok) (auto simp: publish_index_def os_rename_def Let_def split: option.splits)
qed

section \<open>The properties\<close>

lemma cache_ok_example: "cache_ok example_world"
  by (simp add: cache_ok_def example_world_def)

text \<open>
  C4. Whenever the cache of \<open>should_edit\<close> holds only what the function computes,
  \<open>should_edit rev\<close> returns true exactly when the merge-base of \<open>rev\<close> and the tip of the old
  upstream is a commit other than \<open>rev\<close>, and false exactly when it is \<open>rev\<close> itself. In
  particular it is false for a commit whose merge-base \<^verbatim>\<open>git merge-base\<close> prints as the
  commit itself, as it does for the tip of the old upstream.
\<close>

theorem should_edit_iff_merge_base_differs:
  assumes "cache_ok w"
  shows "(fst (should_edit w rv) = Inr True \<longleftrightarrow> not_in_old_upstream (check_output w) rv) \<and>
         (fst (should_edit w rv) = Inr False \<longleftrightarrow> in_old_upstream (check_output w) rv) \<and>
         (is_hash rv \<and> check_output w (git_merge_base rv) = Some (rv @ [NL]) \<longrightarrow>
            fst (should_edit w rv) = Inr False)"
proof -
  have "is_hash rv \<Longrightarrow> strip (rv @ [NL]) = rv"
    using is_hash_ends [of rv] by (simp add: strip_append_NL)
  then show ?thesis
    using should_edit_result [OF assms, of rv] should_edit_body_iff [of "check_output w" rv]
    by (auto simp: in_old_upstream_def)
qed

theorem should_edit_iff_merge_base_differs_witness:
  "cache_ok example_world \<and>
   fst (should_edit example_world ''C'') = Inr True \<and>
   not_in_old_upstream (check_output example_world) ''C'' \<and>
   is_hash ''A'' \<and> check_output example_world (git_merge_base ''A'') = Some (''A'' @ [NL]) \<and>
   in_old_upstream (check_output example_world) ''A'' \<and>
   fst (should_edit example_world ''A'') = Inr False"
proof -
  have c: "not_in_old_upstream (check_output example_world) ''C''"
    by code_simp
  have a: "is_hash ''A'' \<and> check_output example_world (git_merge_base ''A'') = Some (''A'' @ [NL])"
    by code_simp
  show ?thesis
    using cache_ok_example c a
      should_edit_iff_merge_base_differs [OF cache_ok_example, of "''C''"]
      should_edit_iff_merge_base_differs [OF cache_ok_example, of "''A''"]
    by auto
qed

text \<open>
  C1, amended. For a commit \<open>c\<close> on the old-upstream line \<open>map_to_new_upstream c\<close> never
  returns None: it raises or returns one commit. When the log query for \<open>c\<close> lists exactly
  one commit, that commit is returned. A commit that is returned is the only line of the
  log of NEW_UPSTREAM that the script asks for with the author email of \<open>c\<close> as the
  \<^verbatim>\<open>--author\<close> pattern, the timestamp of \<open>c\<close> as \<^verbatim>\<open>--since\<close> and one second later as
  \<^verbatim>\<open>--until\<close>. That its author email is the email of \<open>c\<close>, and its timestamp within a
  second of the timestamp of \<open>c\<close>, is not part of the statement.
\<close>

theorem map_to_new_upstream_old_commit:
  assumes "cache_ok w" and "in_old_upstream (check_output w) c"
  shows "fst (map_to_new_upstream w c) \<noteq> Inr None \<and>
         (\<forall>h. log_lists (check_output w) c [h] \<longrightarrow> fst (map_to_new_upstream w c) = Inr (Some h)) \<and>
         (\<forall>h. fst (map_to_new_upstream w c) = Inr (Some h) \<longrightarrow>
            h \<noteq> [] \<and>
            (\<exists>date email d out.
               show_date_email (check_output w) c = Inr (date, email) \<and>
               py_int date = Some d \<and>
               check_output w (git_log email date (py_str (d + 1))) = Some out \<and>
               split_on NL (strip out) = [h]))"
proof -
  let ?run = "check_output w"
  have res: "fst (map_to_new_upstream w c) = map_to_new_upstream_body ?run c"
    using assms(1) by (rule map_to_new_upstream_result)
  have none: "map_to_new_upstream_body ?run c \<noteq> Inr None"
    using assms(2) by (rule body_in_old_upstream)
  have one: "map_to_new_upstream_body ?run c = Inr (Some h)" if "log_lists ?run c [h]" for h
    using body_log_lists [OF that] by simp
  have query: "h \<noteq> [] \<and>
      (\<exists>date email d out.
         show_date_email ?run c = Inr (date, email) \<and> py_int date = Some d \<and>
         ?run (git_log email date (py_str (d + 1))) = Some out \<and> split_on NL (strip out) = [h])"
    if b: "map_to_new_upstream_body ?run c = Inr (Some h)" for h
  proof -
    have "new_upstream_revs ?run c = Inr [h]" using b by (rule body_Some_single)
    then have "\<exists>date email d out.
         show_date_email ?run c = Inr (date, email) \<and> py_int date = Some d \<and>
         ?run (git_log email date (py_str (d + 1))) = Some out \<and> split_on NL (strip out) = [h]"
      by (auto simp: new_upstream_revs_def split: sum.splits option.splits prod.splits)
    moreover have "h \<noteq> []" using b by (rule body_Some_not_empty)
    ultimately show ?thesis by simp
  qed
  from none one query show ?thesis
    unfolding res by blast
qed

theorem map_to_new_upstream_old_commit_witness:
  "cache_ok example_world \<and> in_old_upstream (check_output example_world) ''A'' \<and>
   log_lists (check_output example_world) ''A'' [''B''] \<and>
   fst (map_to_new_upstream example_world ''A'') = Inr (Some ''B'') \<and>
   (\<exists>date email d out.
      show_date_email (check_output example_world) ''A'' = Inr (date, email) \<and>
      py_int date = Some d \<and>
      check_output example_world (git_log email date (py_str (d + 1))) = Some out \<and>
      split_on NL (strip out) = [''B''])"
proof -
  have a: "in_old_upstream (check_output example_world) ''A''"
    by code_simp
  have l: "log_lists (check_output example_world) ''A'' [''B'']"
    by code_simp
  show ?thesis
    using a l cache_ok_example
      map_to_new_upstream_old_commit [OF cache_ok_example a]
    by auto
qed

text \<open>
  C1 as stated fails, twice. \<open>X\<close> lies on the old-upstream line, the log query lists no
  candidate for it, and \<open>map_to_new_upstream\<close> raises instead of returning a commit. \<open>V\<close>
  lies on the old-upstream line and \<open>map_to_new_upstream\<close> returns \<open>W\<close> for it, whose author
  email is another one and whose timestamp is 50 seconds before the timestamp of \<open>V\<close>.
\<close>

theorem map_to_new_upstream_old_commit_counterexample:
  "in_old_upstream (check_output example_world) ''X'' \<and>
   fst (map_to_new_upstream example_world ''X'') = Inl (RuntimeError (unmapped_message ''X'')) \<and>
   in_old_upstream (check_output author_pattern_world) ''V'' \<and>
   fst (map_to_new_upstream author_pattern_world ''V'') = Inr (Some ''W'') \<and>
   commit_email (check_output author_pattern_world) ''V'' = Some ''al@x.com'' \<and>
   commit_email (check_output author_pattern_world) ''W'' = Some ''val@x.com'' \<and>
   commit_time (check_output author_pattern_world) ''V'' = Some 100 \<and>
   commit_time (check_output author_pattern_world) ''W'' = Some 50"
  by code_simp

text \<open>
  C2, amended. When the log query lists more than one candidate for \<open>rev\<close>,
  \<open>map_to_new_upstream rev\<close> raises the ambiguity error; its message names the offending
  commit and the new upstream, and nothing else that depends on the candidates.
\<close>

theorem ambiguity_error:
  assumes "cache_ok w" and "log_lists (check_output w) rv hs" and "length hs > 1"
  shows "fst (map_to_new_upstream w rv) = Inl (RuntimeError (ambiguous_message rv)) \<and>
         ambiguous_message rv =
           ''Revision '' @ rv @ '' has more than one corresponding rev in new upstream, origin/master.  Maybe (author email, date) is not unique?''"
  using map_to_new_upstream_result [OF assms(1), of rv] body_log_lists [OF assms(2)] assms(3)
  by (simp add: ambiguous_message_def NEW_UPSTREAM_def)

theorem ambiguity_error_witness:
  "cache_ok example_world \<and> log_lists (check_output example_world) ''Y'' [''P'', ''Q''] \<and>
   length [''P'', ''Q''] > 1 \<and>
   fst (map_to_new_upstream example_world ''Y'') = Inl (RuntimeError (ambiguous_message ''Y''))"
proof -
  have l: "log_lists (check_output example_world) ''Y'' [''P'', ''Q'']"
    by code_simp
  show ?thesis
    using l cache_ok_example ambiguity_error [OF cache_ok_example l]
    by simp
qed

text \<open>
  C2 as stated fails: with two candidates and with three the error is the same value, so
  it does not carry the candidate count.
\<close>

theorem ambiguity_error_counterexample:
  "log_lists (check_output example_world) ''Y'' [''P'', ''Q''] \<and>
   log_lists three_candidates_git ''Y'' [''P'', ''Q'', ''S''] \<and>
   fst (map_to_new_upstream example_world ''Y'') =
     Inl (RuntimeError ''Revision Y has more than one corresponding rev in new upstream, origin/master.  Maybe (author email, date) is not unique?'') \<and>
   fst (map_to_new_upstream (example_world\<lparr>check_output := three_candidates_git\<rparr>) ''Y'') =
     Inl (RuntimeError ''Revision Y has more than one corresponding rev in new upstream, origin/master.  Maybe (author email, date) is not unique?'')"
  by code_simp

text \<open>
  C3. When the log query lists no candidate for \<open>rev\<close>, \<open>map_to_new_upstream rev\<close> raises the
  missing-correspondence error exactly when the merge-base test answers \<open>rev\<close>; when the
  test answers another commit it returns None. The test is made afresh: whatever the cache
  of \<open>should_edit\<close> holds, the result is the same.
\<close>

theorem missing_correspondence:
  assumes "cache_ok w" and "log_lists (check_output w) rv []"
  shows "(fst (map_to_new_upstream w rv) = Inl (RuntimeError (unmapped_message rv))
            \<longleftrightarrow> in_old_upstream (check_output w) rv) \<and>
         (not_in_old_upstream (check_output w) rv \<longrightarrow> fst (map_to_new_upstream w rv) = Inr None) \<and>
         (\<forall>stale. fst (map_to_new_upstream (w\<lparr>should_edit_cache := stale\<rparr>) rv) =
                  fst (map_to_new_upstream w rv))"
proof -
  have "\<forall>stale. fst (map_to_new_upstream (w\<lparr>should_edit_cache := stale\<rparr>) rv) =
                  fst (map_to_new_upstream w rv)"
    by (simp add: map_to_new_upstream_def split: prod.splits)
  then show ?thesis
    using map_to_new_upstream_result [OF assms(1), of rv] body_log_lists [OF assms(2)]
    by (auto simp: in_old_upstream_def not_in_old_upstream_def split: option.splits)
qed

theorem missing_correspondence_witness:
  "cache_ok example_world \<and>
   log_lists (check_output example_world) ''X'' [] \<and> in_old_upstream (check_output example_world) ''X'' \<and>
   fst (map_to_new_upstream example_world ''X'') = Inl (RuntimeError (unmapped_message ''X'')) \<and>
   log_lists (check_output example_world) ''D'' [] \<and> not_in_old_upstream (check_output example_world) ''D'' \<and>
   fst (map_to_new_upstream example_world ''D'') = Inr None \<and>
   fst (map_to_new_upstream (example_world\<lparr>should_edit_cache := [''D'' \<mapsto> False]\<rparr>) ''D'') = Inr None"
proof -
  have x: "log_lists (check_output example_world) ''X'' []"
    by code_simp
  have d: "log_lists (check_output example_world) ''D'' []"
    by code_simp
  have i: "in_old_upstream (check_output example_world) ''X'' \<and>
      not_in_old_upstream (check_output example_world) ''D''"
    by code_simp
  show ?thesis
    using x d i cache_ok_example
      missing_correspondence [OF cache_ok_example x]
      missing_correspondence [OF cache_ok_example d]
    by simp
qed



text \<open>
  C6. For a commit with \<open>should_edit\<close> true and standard input of the form
  \<^verbatim>\<open>-p <parent> -p <parent> ...\<close> whose parents all map without an error, \<open>filter_parent\<close>
  prints the same flag-tagged list, each parent replaced by its correspondence when it
  has one and left as it is otherwise: as many parents, in the same order.
\<close>

theorem filter_parent_rewrites_parents:
  assumes "cache_ok w"
    and "fst (should_edit w rv) = Inr True"
    and "split_ws (strip stdin) = flag_tagged ps"
    and "list_all (\<lambda>p. p \<noteq> ''-p'' \<and> \<not> isl (map_to_new_upstream_body (check_output w) p)) ps"
  shows "fst (filter_parent w stdin rv) =
           Inr (join '' '' (flag_tagged (map (mapped_or_same (check_output w)) ps)) @ [NL]) \<and>
         length (map (mapped_or_same (check_output w)) ps) = length ps"
proof -
  let ?w1 = "snd (should_edit w rv)"
  let ?f = "\<lambda>p. if p = ''-p'' then p else mapped_or_same (check_output ?w1) p"
  have w1: "cache_ok ?w1" "check_output ?w1 = check_output w"
    using should_edit_cache_ok [OF assms(1), of rv] should_edit_frame [of w rv] by simp_all
  have ps: "\<forall>p\<in>set ps. p \<noteq> ''-p''"
    using assms(4) by (simp add: list_all_iff)
  have "list_all (\<lambda>p. p = ''-p'' \<or> \<not> isl (map_to_new_upstream_body (check_output ?w1) p)) (flag_tagged ps)"
    using assms(4) unfolding w1(2) by (induction ps) simp_all
  with w1(1) have "fst (new_parents ?w1 (flag_tagged ps)) = Inr (map ?f (flag_tagged ps))"
    by (rule new_parents_result)
  then have "fst (new_parents ?w1 (flag_tagged ps)) =
      Inr (flag_tagged (map (mapped_or_same (check_output w)) ps))"
    using map_flag_tagged [OF ps, of "mapped_or_same (check_output ?w1)"] w1(2) by simp
  then show ?thesis
    using filter_parent_edited [OF assms(2), of stdin] assms(3)
    by (cases "new_parents ?w1 (flag_tagged ps)") simp
qed

theorem filter_parent_rewrites_parents_witness:
  "cache_ok example_world \<and> fst (should_edit example_world ''M'') = Inr True \<and>
   split_ws (strip ''-p D -p A'') = flag_tagged [''D'', ''A''] \<and>
   list_all (\<lambda>p. p \<noteq> ''-p'' \<and> \<not> isl (map_to_new_upstream_body (check_output example_world) p)) [''D'', ''A''] \<and>
   map (mapped_or_same (check_output example_world)) [''D'', ''A''] = [''D'', ''B''] \<and>
   fst (filter_parent example_world ''-p D -p A'' ''M'') = Inr (''-p D -p B'' @ [NL])"
proof -
  have s: "fst (should_edit example_world ''M'') = Inr True"
    by code_simp
  have t: "split_ws (strip ''-p D -p A'') = flag_tagged [''D'', ''A'']"
    by code_simp
  have l: "list_all (\<lambda>p. p \<noteq> ''-p'' \<and> \<not> isl (map_to_new_upstream_body (check_output example_world) p)) [''D'', ''A'']"
    by code_simp
  have m: "map (mapped_or_same (check_output example_world)) [''D'', ''A''] = [''D'', ''B'']"
    by code_simp
  show ?thesis
    using cache_ok_example s t l m
      filter_parent_rewrites_parents [OF cache_ok_example s t l]
    by simp
qed

text \<open>
  C7. For a commit with \<open>should_edit\<close> false, \<open>filter_index\<close> returns at once and
  \<open>filter_parent\<close> prints what standard input holds, followed by the newline of
  \<^verbatim>\<open>print\<close>: the parent list is the same. Neither touches a file, the environment or the
  cache of the mapper; the world they leave differs at most in the cache of \<open>should_edit\<close>.
  Run again in that world, each gives the same result and leaves the world as it is.
\<close>

theorem not_edited_is_no_op:
  assumes "fst (should_edit w rv) = Inr False"
  shows "filter_index w rv = (Inr (), snd (should_edit w rv)) \<and>
         filter_parent w stdin rv = (Inr (stdin @ [NL]), snd (should_edit w rv)) \<and>
         split_ws (stdin @ [NL]) = split_ws stdin \<and>
         files (snd (should_edit w rv)) = files w \<and>
         environ (snd (should_edit w rv)) = environ w \<and>
         map_to_new_upstream_cache (snd (should_edit w rv)) = map_to_new_upstream_cache w \<and>
         filter_index (snd (should_edit w rv)) rv = (Inr (), snd (should_edit w rv)) \<and>
         filter_parent (snd (should_edit w rv)) stdin rv = (Inr (stdin @ [NL]), snd (should_edit w rv))"
proof -
  let ?w1 = "snd (should_edit w rv)"
  have again: "should_edit ?w1 rv = (Inr False, ?w1)"
    using assms by (rule should_edit_again)
  then have "fst (should_edit ?w1 rv) = Inr False" "snd (should_edit ?w1 rv) = ?w1"
    by simp_all
  then have "filter_index ?w1 rv = (Inr (), ?w1)" "filter_parent ?w1 stdin rv = (Inr (stdin @ [NL]), ?w1)"
    using filter_index_not_edited [of ?w1 rv] filter_parent_not_edited [of ?w1 rv stdin] by simp_all
  then show ?thesis
    using filter_index_not_edited [OF assms] filter_parent_not_edited [OF assms, of stdin]
      should_edit_frame [of w rv] split_ws_NL [of stdin]
    by simp
qed

theorem not_edited_is_no_op_witness:
  "fst (should_edit example_world ''A'') = Inr False \<and>
   fst (filter_index example_world ''A'') = Inr () \<and>
   files (snd (filter_index example_world ''A'')) = files example_world \<and>
   fst (filter_parent example_world ''-p Z'' ''A'') = Inr (''-p Z'' @ [NL]) \<and>
   filter_index (snd (filter_index example_world ''A'')) ''A'' = (Inr (), snd (filter_index example_world ''A''))"
proof -
  have s: "fst (should_edit example_world ''A'') = Inr False"
    by code_simp
  show ?thesis
    using s not_edited_is_no_op [OF s, of "''-p Z''"]
    by simp
qed

text \<open>
  C8, amended. \<open>map_to_filtered rev\<close> returns None when the file \<^verbatim>\<open>../map/<rev>\<close> is
  absent. When the file exists, its contents are stripped of surrounding whitespace: if a
  newline remains, the function raises the malformed-entry error, whose message names the
  path and the list of the lines; otherwise it returns the stripped contents, which is the
  recorded hash for a file of one line, and the empty string for an empty or blank file.
\<close>

theorem map_to_filtered_cases:
  "(files w (''../map/'' @ rv) = None \<longrightarrow> map_to_filtered w rv = Inr None) \<and>
   (\<forall>content. files w (''../map/'' @ rv) = Some content \<longrightarrow>
      map_to_filtered w rv =
        (if NL \<in> set (strip content)
         then Inl (RuntimeError (mapfile_message (''../map/'' @ rv) (split_on NL (strip content))))
         else Inr (Some (strip content)))) \<and>
   (\<forall>h. is_hash h \<and> files w (''../map/'' @ rv) = Some (h @ [NL]) \<longrightarrow>
      map_to_filtered w rv = Inr (Some h))"
  using map_to_filtered_absent [of w rv] map_to_filtered_present [of w rv]
    map_to_filtered_entry [of _ w rv]
  by blast

theorem map_to_filtered_cases_witness:
  "files example_world (''../map/'' @ ''Q'') = None \<and> map_to_filtered example_world ''Q'' = Inr None \<and>
   is_hash ''F'' \<and> files example_world (''../map/'' @ ''B'') = Some (''F'' @ [NL]) \<and>
   map_to_filtered example_world ''B'' = Inr (Some ''F'') \<and>
   files example_world (''../map/'' @ ''T'') = Some (''G'' @ [NL] @ ''H'' @ [NL]) \<and>
   NL \<in> set (strip (''G'' @ [NL] @ ''H'' @ [NL])) \<and>
   map_to_filtered example_world ''T'' =
     Inl (RuntimeError (mapfile_message ''../map/T'' [''G'', ''H'']))"
proof -
  have q: "files example_world (''../map/'' @ ''Q'') = None"
    by code_simp
  have b: "is_hash ''F'' \<and> files example_world (''../map/'' @ ''B'') = Some (''F'' @ [NL])"
    by code_simp
  have t: "files example_world (''../map/'' @ ''T'') = Some (''G'' @ [NL] @ ''H'' @ [NL])"
    by code_simp
  have n: "NL \<in> set (strip (''G'' @ [NL] @ ''H'' @ [NL])) \<and>
      split_on NL (strip (''G'' @ [NL] @ ''H'' @ [NL])) = [''G'', ''H'']"
    by code_simp
  show ?thesis
    using q b t n
      map_to_filtered_cases [of example_world "''Q''"]
      map_to_filtered_cases [of example_world "''B''"]
      map_to_filtered_cases [of example_world "''T''"]
    by auto
qed

text \<open>
  C8 as stated fails: the file \<^verbatim>\<open>../map/E\<close> exists and holds no line, and
  \<open>map_to_filtered\<close> returns the empty string instead of raising.
\<close>

theorem map_to_filtered_empty_file_counterexample:
  "files example_world ''../map/E'' = Some [] \<and> map_to_filtered example_world ''E'' = Inr (Some [])"
  by code_simp

text \<open>
  What holds of the index for any shell command that leaves the original path alone:
  whenever \<open>filter_index\<close> raises, the original path holds what it held; and when it
  succeeds on an edited commit, the original path holds exactly what the command left at
  the new path, which is gone.
\<close>

lemma index_published_by_rename:
  assumes "environ w ''GIT_INDEX_FILE'' = Some index_file"
    and "\<forall>r p fs. snd (bash_index_info w r p (index_file @ ''.new'') fs) index_file = fs index_file"
  shows "(isl (fst (filter_index w rv)) \<longrightarrow>
            files (snd (filter_index w rv)) index_file = files w index_file) \<and>
         (fst (should_edit w rv) = Inr True \<and> fst (filter_index w rv) = Inr () \<longrightarrow>
            (\<exists>p fs c. bash_index_info w rv p (index_file @ ''.new'') (files w) = (True, fs) \<and>
               fs (index_file @ ''.new'') = Some c \<and>
               files (snd (filter_index w rv)) = (fs(index_file @ ''.new'' := None))(index_file \<mapsto> c)))"
proof (cases "fst (should_edit w rv)")
  case (Inl e)
  then have "filter_index w rv = (Inl e, snd (should_edit w rv))"
    by (cases "should_edit w rv") (simp add: filter_index_def)
  then show ?thesis
    using Inl should_edit_frame [of w rv] by simp
next
  case (Inr b)
  show ?thesis
  proof (cases b)
    case False
    then show ?thesis
      using Inr filter_index_not_edited [of w rv] by simp
  next
    case True
    let ?w1 = "snd (should_edit w rv)"
    have e: "fst (should_edit w rv) = Inr True" using Inr True by simp
    have w1: "files ?w1 = files w" "environ ?w1 = environ w" "bash_index_info ?w1 = bash_index_info w"
      using should_edit_frame [of w rv] by simp_all
    have pub: "?thesis" if "filter_index w rv = publish_index w2 rv p"
      and "files w2 = files w" "environ w2 = environ w" "bash_index_info w2 = bash_index_info w"
    for w2 p
      using publish_index_files [of w2 index_file rv p] that assms by auto
    have err: "?thesis" if "filter_index w rv = (Inl x, w2)" "files w2 = files w" for x w2
      using that by simp
    show ?thesis
    proof (cases "check_output w (git_rev_list rv)")
      case None
      then show ?thesis
        using filter_index_edited [OF e] w1 by (intro err [of _ ?w1]) simp_all
    next
      case (Some out)
      show ?thesis
      proof (cases "tl (split_ws (strip out))")
        case Nil
        then show ?thesis
          using filter_index_edited [OF e] Some w1 by (intro err [of _ ?w1]) simp_all
      next
        case (Cons p0 ps)
        obtain r w2 where f: "first_mapped_parent ?w1 (p0 # ps) = (r, w2)"
          by (cases "first_mapped_parent ?w1 (p0 # ps)")
        have w2: "files w2 = files w" "environ w2 = environ w" "bash_index_info w2 = bash_index_info w"
          using first_mapped_parent_frame [of ?w1 "p0 # ps"] f w1 by simp_all
        show ?thesis
        proof (cases r)
          case (Inl x)
          then show ?thesis
            using filter_index_edited [OF e] Some Cons f w2 by (intro err [of x w2]) simp_all
        next
          case (Inr tp)
          let ?ref = "case tp of None \<Rightarrow> p0 | Some t \<Rightarrow> t"
          show ?thesis
          proof (cases "map_to_filtered w2 ?ref")
            case (Inl x)
            then show ?thesis
              using filter_index_edited [OF e] Some Cons f Inr w2 by (intro err [of x w2]) simp_all
          next
            case (Inr fr)
            then show ?thesis
              using filter_index_edited [OF e] Some Cons f \<open>r = Inr tp\<close> w2
              by (intro pub [of w2 "case fr of None \<Rightarrow> ?ref | Some f' \<Rightarrow> if f' \<noteq> [] then f' else ?ref"])
                simp_all
          qed
        qed
      qed
    qed
  qed
qed

text \<open>
  C9. The new index is built at the path of the index with \<^verbatim>\<open>.new\<close> appended and published
  with one \<^verbatim>\<open>os.rename\<close>, and the claim is that a step of the tree computation that fails
  leaves the original path as it was. The code does not keep to this. In
  \<open>missing_parent_world\<close> the listing of the parent's tree fails: \<^verbatim>\<open>git ls-tree -r F\<close> exits
  with an error. bash does not report it, \<open>filter_index\<close> returns without an error, and
  the original path now holds an index with the entries of \<open>C\<close> alone. Where the listing
  succeeds, in \<open>whole_parent_world\<close>, the index also has the parent's file \<open>g\<close>.
\<close>

theorem partial_index_published:
  "check_output missing_parent_world (git_ls_tree ''F'') = None \<and>
   files missing_parent_world ''idx'' = Some ''old'' \<and>
   fst (should_edit missing_parent_world ''C'') = Inr True \<and>
   fst (filter_index missing_parent_world ''C'') = Inr () \<and>
   files (snd (filter_index missing_parent_world ''C'')) ''idx'' =
     Some (''m b 1'' @ [TAB] @ ''clang/f'' @ [NL]) \<and>
   fst (filter_index whole_parent_world ''C'') = Inr () \<and>
   files (snd (filter_index whole_parent_world ''C'')) ''idx'' =
     Some (''m b 1'' @ [TAB] @ ''clang/f'' @ [NL] @ ''m b 2'' @ [TAB] @ ''g'' @ [NL])"
  by code_simp

text \<open>
  C10. For a commit with \<open>should_edit\<close> true whose parent list is empty, \<open>filter_index\<close>
  raises IndexError at \<^verbatim>\<open>parents[0]\<close> and touches no file; so when \<open>filter_index\<close> succeeds
  on an edited commit, the commit has at least one parent.
\<close>

theorem filter_index_needs_a_parent:
  assumes "fst (should_edit w rv) = Inr True"
  shows "(\<forall>out. check_output w (git_rev_list rv) = Some out \<and> tl (split_ws (strip out)) = [] \<longrightarrow>
            fst (filter_index w rv) = Inl IndexError \<and>
            files (snd (filter_index w rv)) = files w) \<and>
         (fst (filter_index w rv) = Inr () \<longrightarrow>
            (\<exists>out p0 ps. check_output w (git_rev_list rv) = Some out \<and>
               tl (split_ws (strip out)) = p0 # ps))"
proof -
  have "fst (filter_index w rv) = Inl IndexError \<and> files (snd (filter_index w rv)) = files w"
    if "check_output w (git_rev_list rv) = Some out" "tl (split_ws (strip out)) = []" for out
    using filter_index_edited [OF assms] that should_edit_frame [of w rv] by simp
  moreover have "\<exists>out p0 ps. check_output w (git_rev_list rv) = Some out \<and>
      tl (split_ws (strip out)) = p0 # ps"
    if ok: "fst (filter_index w rv) = Inr ()"
  proof (cases "check_output w (git_rev_list rv)")
    case None
    then show ?thesis
      using filter_index_edited [OF assms] ok by simp
  next
    case (Some out)
    then show ?thesis
      using filter_index_edited [OF assms] ok by (cases "tl (split_ws (strip out))") simp_all
  qed
  ultimately show ?thesis by blast
qed

theorem filter_index_needs_a_parent_witness:
  "fst (should_edit example_world ''R'') = Inr True \<and>
   check_output example_world (git_rev_list ''R'') = Some (''R'' @ [NL]) \<and>
   tl (split_ws (strip (''R'' @ [NL]))) = [] \<and>
   fst (filter_index example_world ''R'') = Inl IndexError \<and>
   files (snd (filter_index example_world ''R'')) = files example_world \<and>
   fst (should_edit example_world ''C'') = Inr True \<and>
   fst (filter_index example_world ''C'') = Inr () \<and>
   (\<exists>out p0 ps. check_output example_world (git_rev_list ''C'') = Some out \<and>
      tl (split_ws (strip out)) = p0 # ps)"
proof -
  have r: "fst (should_edit example_world ''R'') = Inr True"
    by code_simp
  have o: "check_output example_world (git_rev_list ''R'') = Some (''R'' @ [NL]) \<and>
      tl (split_ws (strip (''R'' @ [NL]))) = []"
    by code_simp
  have c: "fst (should_edit example_world ''C'') = Inr True"
    by code_simp
  have k: "fst (filter_index example_world ''C'') = Inr ()"
    by code_simp
  show ?thesis
    using r o c k
      filter_index_needs_a_parent [OF r]
      filter_index_needs_a_parent [OF c]
    by simp
qed

end
